theory Spec2Isabelle
  imports Main "HOL-Library.Finite_Map"
begin

section \<open>Python values of a decoded payload\<close>

text \<open>
  A payload is the \<^verbatim>\<open>dict\<close> that decoding a JSON document gives: its values are
  \<^verbatim>\<open>None\<close>, booleans, integers, strings, lists and dictionaries with string keys
  (floating point numbers are left out). A dictionary is kept as an association list
  that is read with \<^const>\<open>map_of\<close>. A string is a HOL string: the code points
  below 256, on which the class \<^verbatim>\<open>\d\<close> of Python's \<^verbatim>\<open>re\<close> is exactly
  the ten characters 0 to 9.
\<close>

datatype json =
    JNull
  | JBool bool
  | JInt int
  | JStr string
  | JList "json list"
  | JObj "(string \<times> json) list"

type_synonym dict = "(string \<times> json) list"

text \<open>The exceptions the code can raise; a result is \<open>Inl\<close> of one of them or \<open>Inr\<close> of
  the value returned.\<close>

datatype error = KeyError | TypeError | AttributeError | IndexError | NotImplementedError

definition bind :: "error + 'a \<Rightarrow> ('a \<Rightarrow> error + 'b) \<Rightarrow> error + 'b" where
  "bind r f = (case r of Inl e \<Rightarrow> Inl e | Inr v \<Rightarrow> f v)"

text \<open>\<^verbatim>\<open>d[k]\<close> and \<^verbatim>\<open>d.get(k, default)\<close> on a dictionary.\<close>

definition getitem :: "dict \<Rightarrow> string \<Rightarrow> error + json" where
  "getitem d k = (case map_of d k of None \<Rightarrow> Inl KeyError | Some v \<Rightarrow> Inr v)"

definition get_default :: "dict \<Rightarrow> string \<Rightarrow> json \<Rightarrow> json" where
  "get_default d k dflt = (case map_of d k of None \<Rightarrow> dflt | Some v \<Rightarrow> v)"

text \<open>The same two operations on a value of any shape: \<^verbatim>\<open>v[k]\<close> with a string key
  is a \<^verbatim>\<open>TypeError\<close> on everything but a dictionary, and only a dictionary has a
  \<^verbatim>\<open>get\<close> method.\<close>

fun subscript :: "json \<Rightarrow> string \<Rightarrow> error + json" where
  "subscript (JObj d) k = getitem d k"
| "subscript _ k = Inl TypeError"

fun method_get :: "json \<Rightarrow> string \<Rightarrow> json \<Rightarrow> error + json" where
  "method_get (JObj d) k dflt = Inr (get_default d k dflt)"
| "method_get _ k dflt = Inl AttributeError"

text \<open>\<^verbatim>\<open>v[0]\<close>: the first element of a list, the first character of a string; a
  decoded dictionary has no key \<^verbatim>\<open>0\<close>.\<close>

fun subscript0 :: "json \<Rightarrow> error + json" where
  "subscript0 (JList (x # xs)) = Inr x"
| "subscript0 (JList []) = Inl IndexError"
| "subscript0 (JStr (c # cs)) = Inr (JStr [c])"
| "subscript0 (JStr []) = Inl IndexError"
| "subscript0 (JObj d) = Inl KeyError"
| "subscript0 _ = Inl TypeError"

text \<open>Truth value of a value in a condition.\<close>

fun truthy :: "json \<Rightarrow> bool" where
  "truthy JNull = False"
| "truthy (JBool b) = b"
| "truthy (JInt i) = (i \<noteq> 0)"
| "truthy (JStr s) = (s \<noteq> [])"
| "truthy (JList xs) = (xs \<noteq> [])"
| "truthy (JObj d) = (d \<noteq> [])"

text \<open>
  \<^verbatim>\<open>a == b\<close> on these values compares structurally, with a boolean equal to the
  integer 0 or 1 it is, a list compared element by element and a dictionary compared
  as a mapping, whatever the order of its keys. \<open>canonical\<close> maps a value to the
  representative of its class, and two values are equal when their representatives
  are the same.
\<close>

datatype canon =
    CNull
  | CInt int
  | CStr string
  | CList "canon list"
  | CDict "(string, canon) fmap"

primrec canonical :: "json \<Rightarrow> canon" where
  "canonical JNull = CNull"
| "canonical (JBool b) = CInt (if b then 1 else 0)"
| "canonical (JInt i) = CInt i"
| "canonical (JStr s) = CStr s"
| "canonical (JList xs) = CList (map canonical xs)"
| "canonical (JObj d) = CDict (fmap_of_list (map (map_prod (\<lambda>k. k) canonical) d))"

definition py_eq :: "json \<Rightarrow> json \<Rightarrow> bool" where
  "py_eq a b = (canonical a = canonical b)"

text \<open>
  \<^verbatim>\<open>hash(v)\<close>. The hash functions of the interpreter for integers, strings and
  \<^verbatim>\<open>None\<close> are parameters; a boolean is hashed as the integer it is, and lists and
  dictionaries are unhashable.
\<close>

record hashes =
  hash_int :: "int \<Rightarrow> int"
  hash_str :: "string \<Rightarrow> int"
  hash_none :: int

fun py_hash :: "hashes \<Rightarrow> json \<Rightarrow> error + int" where
  "py_hash h JNull = Inr (hash_none h)"
| "py_hash h (JBool b) = Inr (hash_int h (if b then 1 else 0))"
| "py_hash h (JInt i) = Inr (hash_int h i)"
| "py_hash h (JStr s) = Inr (hash_str h s)"
| "py_hash h (JList xs) = Inl TypeError"
| "py_hash h (JObj d) = Inl TypeError"

section \<open>The Notification class\<close>

text \<open>
  The slots of a \<^verbatim>\<open>Notification\<close>. The slot \<^verbatim>\<open>id\<close> is the field \<open>notification_id\<close>.
  \<open>'c\<close> and \<open>'m\<close> are the types of \<^verbatim>\<open>PartialCommunity\<close> and \<^verbatim>\<open>PartialMember\<close>
  objects.
\<close>

record ('c, 'm) notification =
  data :: dict
  notification_id :: json
  title :: json
  message_ko :: json
  message_ja :: json
  message_en :: json
  image_url :: json
  logo_image_url :: json
  time_created :: json
  count :: json
  is_read :: json
  community :: 'c
  author :: "'m option"

text \<open>\<^verbatim>\<open>data["message"]["values"].get(loc, "")\<close>\<close>

definition locale_message :: "dict \<Rightarrow> string \<Rightarrow> error + json" where
  "locale_message d loc =
     bind (getitem d ''message'') (\<lambda>m.
     bind (subscript m ''values'') (\<lambda>vs.
     method_get vs loc (JStr [])))"

text \<open>
  \<^verbatim>\<open>__init__\<close>, assignment by assignment; the first lookup that fails ends it.
  The constructors of \<^verbatim>\<open>PartialCommunity\<close> and \<^verbatim>\<open>PartialMember\<close> are defined in
  other modules and are the parameters \<open>mk_community\<close> and \<open>mk_member\<close>.
\<close>

definition init_author :: "(json \<Rightarrow> error + 'm) \<Rightarrow> dict \<Rightarrow> error + 'm option" where
  "init_author mk_member d =
     (if truthy (get_default d ''authors'' JNull)
      then bind (getitem d ''authors'') (\<lambda>as.
           bind (subscript0 as) (\<lambda>a.
           bind (mk_member a) (\<lambda>m. Inr (Some m))))
      else Inr None)"

definition init :: "(json \<Rightarrow> error + 'c) \<Rightarrow> (json \<Rightarrow> error + 'm) \<Rightarrow> dict
    \<Rightarrow> error + ('c, 'm) notification" where
  "init mk_community mk_member d =
     bind (getitem d ''activityId'') (\<lambda>v_id.
     bind (getitem d ''title'') (\<lambda>v_title.
     bind (locale_message d ''ko'') (\<lambda>v_ko.
     bind (locale_message d ''ja'') (\<lambda>v_ja.
     bind (locale_message d ''en'') (\<lambda>v_en.
     bind (Inr (get_default d ''imageUrl'' JNull)) (\<lambda>v_image.
     bind (getitem d ''logoImageUrl'') (\<lambda>v_logo.
     bind (getitem d ''time'') (\<lambda>v_time.
     bind (getitem d ''count'') (\<lambda>v_count.
     bind (getitem d ''read'') (\<lambda>v_read.
     bind (getitem d ''community'') (\<lambda>c.
     bind (mk_community c) (\<lambda>v_community.
     bind (init_author mk_member d) (\<lambda>v_author.
     Inr \<lparr> data = d, notification_id = v_id, title = v_title,
           message_ko = v_ko, message_ja = v_ja, message_en = v_en,
           image_url = v_image, logo_image_url = v_logo, time_created = v_time,
           count = v_count, is_read = v_read, community = v_community,
           author = v_author \<rparr>)))))))))))))"

text \<open>
  \<^verbatim>\<open>__eq__\<close>: the other operand is an instance of the class or any other object.
\<close>

datatype ('c, 'm, 'o) operand = IsNotification "('c, 'm) notification" | NotNotification 'o

fun eq :: "('c, 'm) notification \<Rightarrow> ('c, 'm, 'o) operand \<Rightarrow> error + bool" where
  "eq self (IsNotification other) = Inr (py_eq (notification_id self) (notification_id other))"
| "eq self (NotNotification other) = Inl NotImplementedError"

text \<open>\<^verbatim>\<open>__hash__\<close>\<close>

definition hash :: "hashes \<Rightarrow> ('c, 'm) notification \<Rightarrow> error + int" where
  "hash h self = py_hash h (notification_id self)"





subsection \<open>post_id\<close>

definition is_digit :: "char \<Rightarrow> bool" where
  "is_digit c = (c \<in> set ''0123456789'')"

text \<open>
  \<^verbatim>\<open>re.search\<close> tries the pattern at every position from left to right, the end of
  the string included, and returns the first match. \<open>m\<close> matches the pattern at the
  start of a string and gives the text matched.
\<close>

fun re_search :: "(string \<Rightarrow> string option) \<Rightarrow> string \<Rightarrow> string option" where
  "re_search m [] = m []"
| "re_search m (c # cs) = (case m (c # cs) of Some r \<Rightarrow> Some r | None \<Rightarrow> re_search m cs)"

text \<open>The pattern \<^verbatim>\<open>([\d]-\d+)\<close>: one digit, a hyphen, and as many digits as follow,
  at least one.\<close>

fun pattern :: "string \<Rightarrow> string option" where
  "pattern (d # h # e # rest) =
     (if is_digit d \<and> h = CHR ''-'' \<and> is_digit e
      then Some (d # h # takeWhile is_digit (e # rest)) else None)"
| "pattern _ = None"

text \<open>The pattern \<^verbatim>\<open>\d+\<close>: as many digits as follow, at least one.\<close>

fun digits_pattern :: "string \<Rightarrow> string option" where
  "digits_pattern (c # cs) = (if is_digit c then Some (c # takeWhile is_digit cs) else None)"
| "digits_pattern [] = None"

text \<open>
  \<^verbatim>\<open>re.search\<close> raises \<^verbatim>\<open>TypeError\<close> on a subject that is not a string, and
  \<^verbatim>\<open>match.group(0)\<close> raises \<^verbatim>\<open>AttributeError\<close> when \<^verbatim>\<open>match\<close> is \<^verbatim>\<open>None\<close>.
\<close>

fun post_id_of :: "json \<Rightarrow> error + string" where
  "post_id_of (JStr s) =
     (case re_search pattern s of
        Some m \<Rightarrow> Inr m
      | None \<Rightarrow> (case re_search digits_pattern s of
                  Some m \<Rightarrow> Inr m
                | None \<Rightarrow> Inl AttributeError))"
| "post_id_of _ = Inl TypeError"

definition post_id :: "('c, 'm) notification \<Rightarrow> error + string" where
  "post_id self = bind (getitem (data self) ''messageId'') post_id_of"

subsection \<open>post_type\<close>

text \<open>
  Modelled from the spec: the enumeration \<^verbatim>\<open>weverse.enums.NotificationType\<close> is
  declared in a module that is not among the sources. Its members are the ten
  categories of the taxonomy, under the names the table of \<^verbatim>\<open>post_type\<close> uses.
\<close>

datatype NotificationType =
    USER_POST_COMMENT
  | MEDIA_COMMENT
  | MOMENT_COMMENT
  | ARTIST_POST_COMMENT
  | POST
  | MOMENT
  | LIVE
  | MEDIA
  | NOTICE
  | BIRTHDAY

text \<open>What \<^verbatim>\<open>post_type\<close> returns: a member of the enumeration or a string.\<close>

datatype post_type_value = Member NotificationType | Str string

text \<open>The dictionary \<^verbatim>\<open>post_types\<close>; its keys are distinct, so it is iterated in the
  order it is written in.\<close>

definition post_types :: "(string \<times> NotificationType) list" where
  "post_types =
    [(''T_FEED_COMMENT'', USER_POST_COMMENT),
     (''ST_FEED_COMMENT'', USER_POST_COMMENT),
     (''_MEDIA_COMMENT'', MEDIA_COMMENT),
     (''_MOMENT_COMMENT'', MOMENT_COMMENT),
     (''MOMENT_COMMENT'', MOMENT_COMMENT),
     (''ARTIST_COMMENT'', ARTIST_POST_COMMENT),
     (''ARTIST_POST'', POST),
     (''ARTIST_MOMENT'', MOMENT),
     (''ARTIST_LIVE_ON_AIR'', LIVE),
     (''COMMUNITY_MEDIA'', MEDIA),
     (''NOTICE'', NOTICE),
     (''COMMUNITY_ANNIVERSARY'', BIRTHDAY)]"

text \<open>\<^verbatim>\<open>key in s\<close> on two strings: \<open>key\<close> occurs in \<open>s\<close> as a substring.\<close>

fun is_substring :: "string \<Rightarrow> string \<Rightarrow> bool" where
  "is_substring key [] = (key = [])"
| "is_substring key (c # cs) = (take (length key) (c # cs) = key \<or> is_substring key cs)"

text \<open>\<^verbatim>\<open>key in v\<close> for a string \<open>key\<close>: a substring test on a string, a membership
  test on a list, a key test on a dictionary, a \<^verbatim>\<open>TypeError\<close> on the rest.\<close>

fun py_in :: "string \<Rightarrow> json \<Rightarrow> error + bool" where
  "py_in key (JStr s) = Inr (is_substring key s)"
| "py_in key (JList xs) = Inr (JStr key \<in> set xs)"
| "py_in key (JObj d) = Inr (key \<in> set (map fst d))"
| "py_in key _ = Inl TypeError"

text \<open>The loop over the items of the table; \<^verbatim>\<open>self.data["messageId"]\<close> is looked
  up in every round.\<close>

fun post_type_loop :: "(string \<times> NotificationType) list \<Rightarrow> dict \<Rightarrow> error + post_type_value" where
  "post_type_loop [] d = Inr (Str ''NOT IMPLEMENTED'')"
| "post_type_loop ((key, val) # items) d =
     bind (getitem d ''messageId'') (\<lambda>mid.
     bind (py_in key mid) (\<lambda>found.
     if found then Inr (Member val) else post_type_loop items d))"

definition post_type :: "('c, 'm) notification \<Rightarrow> error + post_type_value" where
  "post_type self = post_type_loop post_types (data self)"

section \<open>Notions of the specification\<close>

text \<open>
  The specification speaks of a \<^verbatim>\<open><digits>-<digits>\<close> fragment: a run of digits, a
  hyphen and a run of digits. \<open>fragment_at s\<close> is the fragment that starts at the
  beginning of \<open>s\<close>, as the pair of its two runs, each taken as long as it goes;
  \<open>first_fragment s\<close> is the one that starts leftmost in \<open>s\<close>.
\<close>

definition fragment_at :: "string \<Rightarrow> (string \<times> string) option" where
  "fragment_at s =
     (let a = takeWhile is_digit s; r = dropWhile is_digit s in
      case r of
        h # e # rest \<Rightarrow>
          if a \<noteq> [] \<and> h = CHR ''-'' \<and> is_digit e
          then Some (a, takeWhile is_digit (e # rest)) else None
      | _ \<Rightarrow> None)"

fun first_fragment :: "string \<Rightarrow> (string \<times> string) option" where
  "first_fragment [] = None"
| "first_fragment (c # cs) =
     (case fragment_at (c # cs) of Some f \<Rightarrow> Some f | None \<Rightarrow> first_fragment cs)"

text \<open>The first run of plain digits of a string, from left to right.\<close>

definition first_digit_run :: "string \<Rightarrow> string" where
  "first_digit_run s = takeWhile is_digit (dropWhile (\<lambda>c. \<not> is_digit c) s)"


text \<open>
  A valid payload is a mapping that conforms to the notification schema, as far as
  construction reads it: the required scalar keys are there, \<^verbatim>\<open>message\<close> is a mapping
  whose \<^verbatim>\<open>values\<close> is a mapping, \<^verbatim>\<open>community\<close> is there and its constructor accepts
  it, and \<^verbatim>\<open>authors\<close>, when it is there, is \<^verbatim>\<open>null\<close> or a list whose first element
  the member constructor accepts. Nothing is asked of \<^verbatim>\<open>imageUrl\<close>, \<^verbatim>\<open>webUrl\<close>,
  \<^verbatim>\<open>messageId\<close> and of the keys of \<^verbatim>\<open>message.values\<close>.
\<close>

definition valid_scalars :: "dict \<Rightarrow> bool" where
  "valid_scalars d =
     list_all (\<lambda>k. map_of d k \<noteq> None)
       [''activityId'', ''title'', ''logoImageUrl'', ''time'', ''count'', ''read'']"

definition valid_message :: "dict \<Rightarrow> bool" where
  "valid_message d =
     (case map_of d ''message'' of
        Some (JObj m) \<Rightarrow> (case map_of m ''values'' of Some (JObj vs) \<Rightarrow> True | _ \<Rightarrow> False)
      | _ \<Rightarrow> False)"

definition valid_community :: "(json \<Rightarrow> error + 'c) \<Rightarrow> dict \<Rightarrow> bool" where
  "valid_community mk_community d =
     (case map_of d ''community'' of
        Some c \<Rightarrow> (case mk_community c of Inr v \<Rightarrow> True | Inl e \<Rightarrow> False)
      | None \<Rightarrow> False)"

definition valid_authors :: "(json \<Rightarrow> error + 'm) \<Rightarrow> dict \<Rightarrow> bool" where
  "valid_authors mk_member d =
     (case map_of d ''authors'' of
        None \<Rightarrow> True
      | Some JNull \<Rightarrow> True
      | Some (JList []) \<Rightarrow> True
      | Some (JList (a # as)) \<Rightarrow> (case mk_member a of Inr v \<Rightarrow> True | Inl e \<Rightarrow> False)
      | Some _ \<Rightarrow> False)"

definition valid_payload :: "(json \<Rightarrow> error + 'c) \<Rightarrow> (json \<Rightarrow> error + 'm) \<Rightarrow> dict \<Rightarrow> bool" where
  "valid_payload mk_community mk_member d =
     (valid_scalars d \<and> valid_message d \<and> valid_community mk_community d
      \<and> valid_authors mk_member d)"


section \<open>Pattern search\<close>

lemma hyphen_not_digit [simp]: "\<not> is_digit CHR ''-''"
  by (simp add: is_digit_def)

lemma pattern_Some_hd: "pattern s = Some r \<Longrightarrow> \<exists>c cs. s = c # cs \<and> is_digit c"
  by (cases s rule: pattern.cases) (auto split: if_splits)

lemma digits_pattern_Some_hd: "digits_pattern s = Some r \<Longrightarrow> \<exists>c cs. s = c # cs \<and> is_digit c"
  by (cases s) (auto split: if_splits)

lemma re_search_no_digit:
  assumes "\<And>t r. m t = Some r \<Longrightarrow> \<exists>c cs. t = c # cs \<and> is_digit c"
    and "\<forall>c \<in> set s. \<not> is_digit c"
  shows "re_search m s = None"
  using assms(2)
proof (induction s)
  case Nil
  show ?case using assms(1) [of "[]"] by (cases "m []") auto
next
  case (Cons c cs)
  have "m (c # cs) = None" using assms(1) [of "c # cs"] Cons.prems by (cases "m (c # cs)") auto
  then show ?case using Cons by simp
qed

lemma re_search_digits_run:
  "\<exists>c \<in> set s. is_digit c \<Longrightarrow> re_search digits_pattern s = Some (first_digit_run s)"
  by (induction s) (auto simp: first_digit_run_def)

lemma first_digit_run_nonempty: "\<exists>c \<in> set s. is_digit c \<Longrightarrow> first_digit_run s \<noteq> []"
  by (induction s) (auto simp: first_digit_run_def)

lemma pattern_fragment_at: "pattern s = Some r \<Longrightarrow> fragment_at s \<noteq> None"
  by (cases s rule: pattern.cases) (auto simp: fragment_at_def split: if_splits)

lemma re_search_pattern_run:
  "a \<noteq> [] \<Longrightarrow> \<forall>c \<in> set a. is_digit c \<Longrightarrow> is_digit e \<Longrightarrow>
   re_search pattern (a @ CHR ''-'' # e # rest) = Some (last a # CHR ''-'' # takeWhile is_digit (e # rest))"
proof (induction a)
  case Nil
  then show ?case by simp
next
  case (Cons d a)
  show ?case
  proof (cases a)
    case Nil
    then show ?thesis using Cons.prems by simp
  next
    case (Cons d' a')
    then have "pattern ((d # a) @ CHR ''-'' # e # rest) = None"
      using Cons.prems by (cases a') auto
    then show ?thesis using Cons.IH Cons.prems Cons by simp
  qed
qed

lemma fragment_at_shape:
  assumes "fragment_at s = Some (a, b)"
  obtains e rest where "s = a @ CHR ''-'' # e # rest" and "a \<noteq> []"
    and "\<forall>c \<in> set a. is_digit c" and "is_digit e" and "b = takeWhile is_digit (e # rest)"
proof -
  obtain h e rest where r: "dropWhile is_digit s = h # e # rest"
    using assms by (auto simp: fragment_at_def Let_def split: list.splits)
  have *: "takeWhile is_digit s \<noteq> []" "h = CHR ''-''" "is_digit e"
    "a = takeWhile is_digit s" "b = takeWhile is_digit (e # rest)"
    using assms r by (auto simp: fragment_at_def Let_def split: if_splits)
  have "s = takeWhile is_digit s @ dropWhile is_digit s" by simp
  then have s: "s = a @ CHR ''-'' # e # rest" using r * by simp
  have d: "\<forall>c \<in> set a. is_digit c" using * by (auto dest: set_takeWhileD)
  show ?thesis using that [OF s _ d] * by simp
qed

lemma re_search_first_fragment:
  "first_fragment s = Some (a, b) \<Longrightarrow> re_search pattern s = Some (last a # CHR ''-'' # b)"
proof (induction s)
  case Nil
  then show ?case by simp
next
  case (Cons c cs)
  show ?case
  proof (cases "fragment_at (c # cs)")
    case None
    then have "pattern (c # cs) = None" using pattern_fragment_at [of "c # cs"] by (cases "pattern (c # cs)") auto
    then show ?thesis using Cons None by simp
  next
    case (Some f)
    then have f: "fragment_at (c # cs) = Some (a, b)" using Cons.prems by simp
    from f obtain e rest where s: "c # cs = a @ CHR ''-'' # e # rest" and a: "a \<noteq> []"
      and d: "\<forall>c \<in> set a. is_digit c" and e: "is_digit e" and b: "b = takeWhile is_digit (e # rest)"
      by (rule fragment_at_shape)
    show ?thesis unfolding s b by (rule re_search_pattern_run [OF a d e])
  qed
qed

lemma re_search_no_fragment:
  "first_fragment s = None \<Longrightarrow> re_search pattern s = None"
proof (induction s)
  case Nil
  then show ?case by simp
next
  case (Cons c cs)
  then have n: "fragment_at (c # cs) = None" by (simp split: option.splits)
  then have "pattern (c # cs) = None" using pattern_fragment_at [of "c # cs"] by (cases "pattern (c # cs)") auto
  then show ?case using Cons n by simp
qed

subsection \<open>What the two notions of the specification say\<close>

text \<open>
  \<open>first_fragment\<close> finds a fragment exactly when the string has one somewhere: a
  non-empty run of digits, a hyphen and a non-empty run of digits; and the first run of
  digits stands between a prefix without digits and a rest that does not go on with a
  digit.
\<close>

lemma fragment_at_run:
  assumes "a \<noteq> []" and "\<forall>c \<in> set a. is_digit c" and "b \<noteq> []" and "\<forall>c \<in> set b. is_digit c"
  shows "fragment_at (a @ CHR ''-'' # b @ post) \<noteq> None"
proof -
  obtain e b' where b: "b = e # b'" using assms(3) by (cases b) auto
  have t: "takeWhile is_digit (a @ CHR ''-'' # b @ post) = a"
    using assms(2) by (simp add: takeWhile_append2)
  have d: "dropWhile is_digit (a @ CHR ''-'' # b @ post) = CHR ''-'' # e # b' @ post"
    using assms(2) b by (simp add: dropWhile_append2)
  show ?thesis using assms(1,4) b unfolding fragment_at_def t d by (simp add: Let_def)
qed

lemma first_fragment_Some_decomp:
  "first_fragment s = Some (a, b) \<Longrightarrow>
   \<exists>pre post. s = pre @ a @ CHR ''-'' # b @ post \<and> a \<noteq> [] \<and> b \<noteq> []
     \<and> (\<forall>c \<in> set a. is_digit c) \<and> (\<forall>c \<in> set b. is_digit c)
     \<and> (post = [] \<or> \<not> is_digit (hd post))"
proof (induction s)
  case Nil
  then show ?case by simp
next
  case (Cons c cs)
  show ?case
  proof (cases "fragment_at (c # cs)")
    case None
    then have "first_fragment cs = Some (a, b)" using Cons.prems by simp
    then obtain pre post where "cs = pre @ a @ CHR ''-'' # b @ post" and r: "a \<noteq> []" "b \<noteq> []"
      "\<forall>c \<in> set a. is_digit c" "\<forall>c \<in> set b. is_digit c" "post = [] \<or> \<not> is_digit (hd post)"
      using Cons.IH by blast
    then have "c # cs = (c # pre) @ a @ CHR ''-'' # b @ post" by simp
    then show ?thesis using r by blast
  next
    case (Some f)
    then have f: "fragment_at (c # cs) = Some (a, b)" using Cons.prems by simp
    from f obtain e rest where s: "c # cs = a @ CHR ''-'' # e # rest" and a: "a \<noteq> []"
      and d: "\<forall>c \<in> set a. is_digit c" and e: "is_digit e" and b: "b = takeWhile is_digit (e # rest)"
      by (rule fragment_at_shape)
    let ?post = "dropWhile is_digit (e # rest)"
    have 1: "c # cs = [] @ a @ CHR ''-'' # b @ ?post" using s b by simp
    have 2: "b \<noteq> []" using b e by simp
    have 3: "\<forall>c \<in> set b. is_digit c" unfolding b by (auto dest: set_takeWhileD)
    have 4: "?post = [] \<or> \<not> is_digit (hd ?post)" using hd_dropWhile [of is_digit "e # rest"] by blast
    show ?thesis using 1 a 2 d 3 4 by blast
  qed
qed

lemma first_fragment_None_iff:
  "first_fragment s = None \<longleftrightarrow>
   \<not> (\<exists>pre a b post. s = pre @ a @ CHR ''-'' # b @ post \<and> a \<noteq> [] \<and> b \<noteq> []
     \<and> (\<forall>c \<in> set a. is_digit c) \<and> (\<forall>c \<in> set b. is_digit c))"
proof
  assume n: "first_fragment s = None"
  show "\<not> (\<exists>pre a b post. s = pre @ a @ CHR ''-'' # b @ post \<and> a \<noteq> [] \<and> b \<noteq> []
     \<and> (\<forall>c \<in> set a. is_digit c) \<and> (\<forall>c \<in> set b. is_digit c))"
  proof
    assume "\<exists>pre a b post. s = pre @ a @ CHR ''-'' # b @ post \<and> a \<noteq> [] \<and> b \<noteq> []
     \<and> (\<forall>c \<in> set a. is_digit c) \<and> (\<forall>c \<in> set b. is_digit c)"
    then obtain pre a b post where s: "s = pre @ a @ CHR ''-'' # b @ post" and a: "a \<noteq> []"
      and b: "b \<noteq> []" and da: "\<forall>c \<in> set a. is_digit c" and db: "\<forall>c \<in> set b. is_digit c"
      by blast
    have f: "fragment_at (a @ CHR ''-'' # b @ post) \<noteq> None"
      using a da b db by (rule fragment_at_run)
    have "first_fragment (pre @ a @ CHR ''-'' # b @ post) \<noteq> None"
    proof (induction pre)
      case Nil
      obtain x a' where "a = x # a'" using a by (cases a) auto
      then show ?case using f by (auto split: option.splits)
    next
      case (Cons p pre)
      then show ?case by (auto split: option.splits)
    qed
    then show False using n s by simp
  qed
next
  assume "\<not> (\<exists>pre a b post. s = pre @ a @ CHR ''-'' # b @ post \<and> a \<noteq> [] \<and> b \<noteq> []
     \<and> (\<forall>c \<in> set a. is_digit c) \<and> (\<forall>c \<in> set b. is_digit c))"
  then have neg: "\<And>pre a b post. s = pre @ a @ CHR ''-'' # b @ post \<Longrightarrow> a \<noteq> [] \<Longrightarrow> b \<noteq> []
      \<Longrightarrow> \<forall>c \<in> set a. is_digit c \<Longrightarrow> \<forall>c \<in> set b. is_digit c \<Longrightarrow> False"
    by blast
  show "first_fragment s = None"
  proof (cases "first_fragment s")
    case None
    then show ?thesis .
  next
    case (Some f)
    obtain a b where "f = (a, b)" by (cases f)
    then have "first_fragment s = Some (a, b)" using Some by simp
    then obtain pre post where "s = pre @ a @ CHR ''-'' # b @ post" "a \<noteq> []" "b \<noteq> []"
      "\<forall>c \<in> set a. is_digit c" "\<forall>c \<in> set b. is_digit c"
      using first_fragment_Some_decomp by blast
    then have False by (rule neg)
    then show ?thesis ..
  qed
qed

lemma first_digit_run_decomp:
  "\<exists>pre post. s = pre @ first_digit_run s @ post \<and> (\<forall>c \<in> set pre. \<not> is_digit c)
     \<and> (\<forall>c \<in> set (first_digit_run s). is_digit c) \<and> (post = [] \<or> \<not> is_digit (hd post))"
proof -
  let ?pre = "takeWhile (\<lambda>c. \<not> is_digit c) s"
  let ?r = "dropWhile (\<lambda>c. \<not> is_digit c) s"
  let ?post = "dropWhile is_digit ?r"
  have "s = ?pre @ ?r" by simp
  also have "?r = first_digit_run s @ ?post" by (simp add: first_digit_run_def)
  finally have 1: "s = ?pre @ first_digit_run s @ ?post" .
  have 2: "\<forall>c \<in> set ?pre. \<not> is_digit c" by (auto dest: set_takeWhileD)
  have 3: "\<forall>c \<in> set (first_digit_run s). is_digit c"
    by (auto simp: first_digit_run_def dest: set_takeWhileD)
  have 4: "?post = [] \<or> \<not> is_digit (hd ?post)" using hd_dropWhile [of is_digit ?r] by blast
  show ?thesis using 1 2 3 4 by blast
qed

section \<open>post_id\<close>

text \<open>
  C1, as the specification states it: when \<^verbatim>\<open>messageId\<close> contains a
  \<^verbatim>\<open><digits>-<digits>\<close> fragment, \<^verbatim>\<open>post_id\<close> returns the first one verbatim.
  This fails: in \<^verbatim>\<open>x-12-345\<close> the first fragment is \<^verbatim>\<open>12-345\<close>, and the pattern
  \<^verbatim>\<open>([\d]-\d+)\<close>, which takes one digit before the hyphen, gives \<^verbatim>\<open>2-345\<close>.
\<close>

theorem post_id_first_fragment_counterexample:
  "first_fragment ''x-12-345'' = Some (''12'', ''345'') \<and>
   post_id \<lparr> data = [(''messageId'', JStr ''x-12-345'')], notification_id = JInt 1,
     title = JStr ''t'', message_ko = JStr [], message_ja = JStr [], message_en = JStr [],
     image_url = JNull, logo_image_url = JStr ''l'', time_created = JInt 0, count = JInt 0,
     is_read = JBool False, community = (), author = (None :: unit option) \<rparr>
   = Inr ''2-345''"
  by (simp add: post_id_def getitem_def bind_def fragment_at_def is_digit_def)

text \<open>
  C1, amended: when \<^verbatim>\<open>messageId\<close> is a string whose first \<^verbatim>\<open><digits>-<digits>\<close>
  fragment is \<open>a\<close>, a hyphen and \<open>b\<close>, \<^verbatim>\<open>post_id\<close> returns the last digit of \<open>a\<close>, the
  hyphen and \<open>b\<close>: the first fragment with exactly one digit before the hyphen. That is
  the first fragment verbatim when \<open>a\<close> is one digit long, and \<^verbatim>\<open>3-12345\<close> for the
  \<^verbatim>\<open>messageId\<close> \<^verbatim>\<open>c2p-T_FEED_COMMENT-3-12345\<close>.
\<close>

theorem post_id_first_fragment:
  assumes "map_of (data self) ''messageId'' = Some (JStr s)"
  shows "(first_fragment s = Some (a, b) \<longrightarrow> post_id self = Inr (last a # CHR ''-'' # b))
    \<and> (first_fragment s = Some (a, b) \<and> length a = 1 \<longrightarrow> post_id self = Inr (a @ CHR ''-'' # b))
    \<and> (s = ''c2p-T_FEED_COMMENT-3-12345'' \<longrightarrow> post_id self = Inr ''3-12345'')"
proof -
  have id: "post_id self = post_id_of (JStr s)"
    using assms by (simp add: post_id_def getitem_def bind_def)
  have 1: "post_id self = Inr (last a # CHR ''-'' # b)" if "first_fragment s = Some (a, b)"
    using re_search_first_fragment [OF that] id by simp
  have 2: "post_id self = Inr (a @ CHR ''-'' # b)"
    if "first_fragment s = Some (a, b)" and "length a = 1"
  proof -
    from that(2) obtain d where "a = [d]" by (cases a) auto
    then show ?thesis using 1 [OF that(1)] by simp
  qed
  have "first_fragment ''c2p-T_FEED_COMMENT-3-12345'' = Some (''3'', ''12345'')"
    by (simp add: fragment_at_def is_digit_def)
  then have "re_search pattern ''c2p-T_FEED_COMMENT-3-12345'' = Some ''3-12345''"
    using re_search_first_fragment by fastforce
  then have 3: "post_id self = Inr ''3-12345''" if "s = ''c2p-T_FEED_COMMENT-3-12345''"
    using id that by simp
  show ?thesis using 1 2 3 by blast
qed

theorem post_id_first_fragment_witness:
  "first_fragment ''a-7-10-2'' = Some (''7'', ''10'') \<and> length ''7'' = 1 \<and>
   post_id \<lparr> data = [(''messageId'', JStr ''a-7-10-2'')], notification_id = JInt 1,
     title = JStr ''t'', message_ko = JStr [], message_ja = JStr [], message_en = JStr [],
     image_url = JNull, logo_image_url = JStr ''l'', time_created = JInt 0, count = JInt 0,
     is_read = JBool False, community = (), author = (None :: unit option) \<rparr>
   = Inr ''7-10''"
proof -
  have f: "first_fragment ''a-7-10-2'' = Some (''7'', ''10'')"
    by (simp add: fragment_at_def is_digit_def)
  show ?thesis
    using f post_id_first_fragment [of "\<lparr> data = [(''messageId'', JStr ''a-7-10-2'')],
      notification_id = JInt 1, title = JStr ''t'', message_ko = JStr [], message_ja = JStr [],
      message_en = JStr [], image_url = JNull, logo_image_url = JStr ''l'',
      time_created = JInt 0, count = JInt 0, is_read = JBool False, community = (),
      author = (None :: unit option) \<rparr>" "''a-7-10-2''" "''7''" "''10''"]
    by simp
qed

text \<open>
  C3: when \<^verbatim>\<open>messageId\<close> is a string with no digit in it (so with no fragment
  either), \<^verbatim>\<open>post_id\<close> raises: it returns no value, synthetic or empty. The exception
  is the \<^verbatim>\<open>AttributeError\<close> of \<^verbatim>\<open>match.group\<close> on \<^verbatim>\<open>None\<close>.
\<close>

theorem post_id_no_digit:
  assumes "map_of (data self) ''messageId'' = Some (JStr s)"
    and "\<forall>c \<in> set s. \<not> is_digit c"
  shows "post_id self = Inl AttributeError"
proof -
  have "re_search pattern s = None"
    using pattern_Some_hd assms(2) by (rule re_search_no_digit)
  moreover have "re_search digits_pattern s = None"
    using digits_pattern_Some_hd assms(2) by (rule re_search_no_digit)
  ultimately show ?thesis
    using assms(1) by (simp add: post_id_def getitem_def bind_def)
qed

theorem post_id_no_digit_witness:
  "list_all (\<lambda>c. \<not> is_digit c) ''NOTICE-x'' \<and>
   post_id \<lparr> data = [(''messageId'', JStr ''NOTICE-x'')], notification_id = JInt 1,
     title = JStr ''t'', message_ko = JStr [], message_ja = JStr [], message_en = JStr [],
     image_url = JNull, logo_image_url = JStr ''l'', time_created = JInt 0, count = JInt 0,
     is_read = JBool False, community = (), author = (None :: unit option) \<rparr>
   = Inl AttributeError"
proof -
  let ?n = "\<lparr> data = [(''messageId'', JStr ''NOTICE-x'')],
      notification_id = JInt 1, title = JStr ''t'', message_ko = JStr [], message_ja = JStr [],
      message_en = JStr [], image_url = JNull, logo_image_url = JStr ''l'',
      time_created = JInt 0, count = JInt 0, is_read = JBool False, community = (),
      author = (None :: unit option) \<rparr>"
  have m: "map_of (data ?n) ''messageId'' = Some (JStr ''NOTICE-x'')" by simp
  have d: "\<forall>c \<in> set ''NOTICE-x''. \<not> is_digit c" by (simp add: is_digit_def)
  have "post_id ?n = Inl AttributeError"
    using m d by (rule post_id_no_digit)
  then show ?thesis using d unfolding list_all_iff by (intro conjI)
qed

text \<open>
  C4: when \<^verbatim>\<open>messageId\<close> is a string with no \<^verbatim>\<open><digits>-<digits>\<close> fragment and at
  least one digit, \<^verbatim>\<open>post_id\<close> returns its first run of digits, which is not empty;
  it returns \<^verbatim>\<open>98765\<close> for \<^verbatim>\<open>NOTICE-98765\<close>.
\<close>

theorem post_id_digit_run:
  assumes "map_of (data self) ''messageId'' = Some (JStr s)"
    and "first_fragment s = None"
    and "\<exists>c \<in> set s. is_digit c"
  shows "post_id self = Inr (first_digit_run s) \<and> first_digit_run s \<noteq> []
    \<and> (s = ''NOTICE-98765'' \<longrightarrow> post_id self = Inr ''98765'')"
proof -
  have "re_search pattern s = None"
    using assms(2) by (rule re_search_no_fragment)
  moreover have "re_search digits_pattern s = Some (first_digit_run s)"
    using assms(3) by (rule re_search_digits_run)
  ultimately have 1: "post_id self = Inr (first_digit_run s)"
    using assms(1) by (simp add: post_id_def getitem_def bind_def)
  have 2: "first_digit_run s \<noteq> []"
    using assms(3) by (rule first_digit_run_nonempty)
  have r: "first_digit_run ''NOTICE-98765'' = ''98765''"
    by (simp add: first_digit_run_def is_digit_def)
  have 3: "post_id self = Inr ''98765''" if "s = ''NOTICE-98765''"
    using 1 r unfolding that by simp
  show ?thesis using 1 2 3 by blast
qed

theorem post_id_digit_run_witness:
  "first_fragment ''NOTICE-98765'' = None \<and> (\<exists>c \<in> set ''NOTICE-98765''. is_digit c) \<and>
   post_id \<lparr> data = [(''messageId'', JStr ''NOTICE-98765'')], notification_id = JInt 1,
     title = JStr ''t'', message_ko = JStr [], message_ja = JStr [], message_en = JStr [],
     image_url = JNull, logo_image_url = JStr ''l'', time_created = JInt 0, count = JInt 0,
     is_read = JBool False, community = (), author = (None :: unit option) \<rparr>
   = Inr ''98765''"
proof -
  let ?n = "\<lparr> data = [(''messageId'', JStr ''NOTICE-98765'')],
      notification_id = JInt 1, title = JStr ''t'', message_ko = JStr [], message_ja = JStr [],
      message_en = JStr [], image_url = JNull, logo_image_url = JStr ''l'',
      time_created = JInt 0, count = JInt 0, is_read = JBool False, community = (),
      author = (None :: unit option) \<rparr>"
  have m: "map_of (data ?n) ''messageId'' = Some (JStr ''NOTICE-98765'')" by simp
  have f: "first_fragment ''NOTICE-98765'' = None"
    by (simp add: fragment_at_def is_digit_def)
  have d: "\<exists>c \<in> set ''NOTICE-98765''. is_digit c" by (simp add: is_digit_def)
  have "post_id ?n = Inr ''98765''"
    using post_id_digit_run [OF m f d] by blast
  then show ?thesis using f d by blast
qed

section \<open>post_type\<close>

lemma take_eq_prefix: "take (length k) s = k \<longleftrightarrow> (\<exists>post. s = k @ post)"
  by (metis append_eq_conv_conj append_take_drop_id)

lemma is_substring_iff: "is_substring k s \<longleftrightarrow> (\<exists>pre post. s = pre @ k @ post)"
proof (induction s)
  case Nil
  then show ?case by auto
next
  case (Cons c cs)
  have "(\<exists>pre post. c # cs = pre @ k @ post)
      \<longleftrightarrow> (\<exists>post. c # cs = k @ post) \<or> (\<exists>pre post. cs = pre @ k @ post)"
  proof
    assume "\<exists>pre post. c # cs = pre @ k @ post"
    then obtain pre post where e: "c # cs = pre @ k @ post" by blast
    show "(\<exists>post. c # cs = k @ post) \<or> (\<exists>pre post. cs = pre @ k @ post)"
    proof (cases pre)
      case Nil
      then show ?thesis using e by auto
    next
      case (Cons p pre')
      then have "cs = pre' @ k @ post" using e by simp
      then show ?thesis by blast
    qed
  next
    assume "(\<exists>post. c # cs = k @ post) \<or> (\<exists>pre post. cs = pre @ k @ post)"
    then show "\<exists>pre post. c # cs = pre @ k @ post"
    proof
      assume "\<exists>post. c # cs = k @ post"
      then obtain post where "c # cs = [] @ k @ post" by auto
      then show ?thesis by blast
    next
      assume "\<exists>pre post. cs = pre @ k @ post"
      then obtain pre post where "c # cs = (c # pre) @ k @ post" by auto
      then show ?thesis by blast
    qed
  qed
  then show ?case using Cons.IH take_eq_prefix [of k "c # cs"] by simp
qed

lemma post_type_loop_first:
  assumes "map_of d ''messageId'' = Some (JStr s)"
    and "\<forall>k \<in> set (map fst pre). \<not> is_substring k s"
    and "is_substring key s"
  shows "post_type_loop (pre @ (key, val) # rest) d = Inr (Member val)"
  using assms(2)
proof (induction pre)
  case Nil
  show ?case using assms(1,3) by (simp add: getitem_def bind_def)
next
  case (Cons p pre)
  obtain k v where p: "p = (k, v)" by (cases p)
  have "\<not> is_substring k s" using Cons.prems p by simp
  then show ?case using Cons assms(1) p by (simp add: getitem_def bind_def)
qed

lemma post_type_loop_none:
  assumes "map_of d ''messageId'' = Some (JStr s)"
    and "\<forall>k \<in> set (map fst items). \<not> is_substring k s"
  shows "post_type_loop items d = Inr (Str ''NOT IMPLEMENTED'')"
  using assms(2)
proof (induction items)
  case Nil
  show ?case by simp
next
  case (Cons p items)
  obtain k v where p: "p = (k, v)" by (cases p)
  have "\<not> is_substring k s" using Cons.prems p by simp
  then show ?case using Cons assms(1) p by (simp add: getitem_def bind_def)
qed

lemma post_type_at:
  assumes "map_of (data self) ''messageId'' = Some (JStr s)"
    and "i < length post_types"
    and "is_substring (fst (post_types ! i)) s"
    and "\<forall>k \<in> set (take i (map fst post_types)). \<not> is_substring k s"
  shows "post_type self = Inr (Member (snd (post_types ! i)))"
proof -
  have split: "post_types = take i post_types @ (fst (post_types ! i), snd (post_types ! i))
      # drop (Suc i) post_types"
    using assms(2) by (simp add: id_take_nth_drop [symmetric])
  have pre: "\<forall>k \<in> set (map fst (take i post_types)). \<not> is_substring k s"
    using assms(4) by (simp add: take_map)
  have "post_type_loop (take i post_types @ (fst (post_types ! i), snd (post_types ! i))
      # drop (Suc i) post_types) (data self) = Inr (Member (snd (post_types ! i)))"
    using assms(1) pre assms(3) by (rule post_type_loop_first)
  then show ?thesis unfolding post_type_def using split by simp
qed

text \<open>
  C2: when \<^verbatim>\<open>messageId\<close> is a string, \<^verbatim>\<open>post_type\<close> returns the category of the
  first marker of the table, in the order the table is written in, that is a substring
  of it: the category at index \<open>i\<close> when the marker at \<open>i\<close> occurs and none of the
  markers before it does. So \<^verbatim>\<open>NOTICE\<close> with none of the ten markers before it gives
  the notice category, and \<^verbatim>\<open>ARTIST_LIVE_ON_AIR\<close> with none of the eight before it
  gives the live category.
\<close>

theorem post_type_first_marker:
  assumes "map_of (data self) ''messageId'' = Some (JStr s)"
  shows "(i < length post_types \<and> is_substring (fst (post_types ! i)) s
        \<and> (\<forall>k \<in> set (take i (map fst post_types)). \<not> is_substring k s)
      \<longrightarrow> post_type self = Inr (Member (snd (post_types ! i))))
    \<and> (is_substring ''NOTICE'' s
        \<and> (\<forall>k \<in> set (take 10 (map fst post_types)). \<not> is_substring k s)
      \<longrightarrow> post_type self = Inr (Member NOTICE))
    \<and> (is_substring ''ARTIST_LIVE_ON_AIR'' s
        \<and> (\<forall>k \<in> set (take 8 (map fst post_types)). \<not> is_substring k s)
      \<longrightarrow> post_type self = Inr (Member LIVE))"
proof -
  have n10: "10 < length post_types" "post_types ! 10 = (''NOTICE'', NOTICE)"
    by (simp_all add: post_types_def)
  have n8: "8 < length post_types" "post_types ! 8 = (''ARTIST_LIVE_ON_AIR'', LIVE)"
    by (simp_all add: post_types_def)
  have notice: "post_type self = Inr (Member NOTICE)"
    if "is_substring ''NOTICE'' s"
      and "\<forall>k \<in> set (take 10 (map fst post_types)). \<not> is_substring k s"
    using post_type_at [OF assms n10(1)] that unfolding n10(2) by simp
  have live: "post_type self = Inr (Member LIVE)"
    if "is_substring ''ARTIST_LIVE_ON_AIR'' s"
      and "\<forall>k \<in> set (take 8 (map fst post_types)). \<not> is_substring k s"
    using post_type_at [OF assms n8(1)] that unfolding n8(2) by simp
  show ?thesis using post_type_at [OF assms, of i] notice live by blast
qed

theorem post_type_first_marker_witness:
  "is_substring ''NOTICE'' ''c2p-NOTICE-98765''
   \<and> list_all (\<lambda>k. \<not> is_substring k ''c2p-NOTICE-98765'') (take 10 (map fst post_types))
   \<and> post_type \<lparr> data = [(''messageId'', JStr ''c2p-NOTICE-98765'')], notification_id = JInt 1,
     title = JStr ''t'', message_ko = JStr [], message_ja = JStr [], message_en = JStr [],
     image_url = JNull, logo_image_url = JStr ''l'', time_created = JInt 0, count = JInt 0,
     is_read = JBool False, community = (), author = (None :: unit option) \<rparr> = Inr (Member NOTICE)"
proof -
  let ?n = "\<lparr> data = [(''messageId'', JStr ''c2p-NOTICE-98765'')], notification_id = JInt 1,
     title = JStr ''t'', message_ko = JStr [], message_ja = JStr [], message_en = JStr [],
     image_url = JNull, logo_image_url = JStr ''l'', time_created = JInt 0, count = JInt 0,
     is_read = JBool False, community = (), author = (None :: unit option) \<rparr>"
  have m: "map_of (data ?n) ''messageId'' = Some (JStr ''c2p-NOTICE-98765'')" by simp
  have a: "is_substring ''NOTICE'' ''c2p-NOTICE-98765''" by simp
  have b: "\<forall>k \<in> set (take 10 (map fst post_types)). \<not> is_substring k ''c2p-NOTICE-98765''"
    by (simp add: post_types_def)
  have "post_type ?n = Inr (Member NOTICE)"
    using post_type_first_marker [OF m, of 0] a b by blast
  then show ?thesis using a b unfolding list_all_iff by (intro conjI)
qed

text \<open>
  C5: when \<^verbatim>\<open>messageId\<close> is a string in which none of the markers of the table
  occurs, as in \<^verbatim>\<open>UNKNOWN_TYPE-1\<close>, \<^verbatim>\<open>post_type\<close> raises nothing and returns the
  string \<^verbatim>\<open>NOT IMPLEMENTED\<close>.
\<close>

theorem post_type_unclassified:
  assumes "map_of (data self) ''messageId'' = Some (JStr s)"
  shows "((\<forall>k \<in> set (map fst post_types). \<not> is_substring k s)
      \<longrightarrow> post_type self = Inr (Str ''NOT IMPLEMENTED''))
    \<and> (s = ''UNKNOWN_TYPE-1'' \<longrightarrow> post_type self = Inr (Str ''NOT IMPLEMENTED''))"
proof -
  have 1: "post_type self = Inr (Str ''NOT IMPLEMENTED'')"
    if "\<forall>k \<in> set (map fst post_types). \<not> is_substring k s"
    unfolding post_type_def using assms that by (rule post_type_loop_none)
  have "\<forall>k \<in> set (map fst post_types). \<not> is_substring k ''UNKNOWN_TYPE-1''"
    by (simp add: post_types_def)
  then have 2: "post_type self = Inr (Str ''NOT IMPLEMENTED'')" if "s = ''UNKNOWN_TYPE-1''"
    using 1 that by simp
  show ?thesis using 1 2 by blast
qed

theorem post_type_unclassified_witness:
  "list_all (\<lambda>k. \<not> is_substring k ''LIVE-7'') (map fst post_types)
   \<and> post_type \<lparr> data = [(''messageId'', JStr ''LIVE-7'')], notification_id = JInt 1,
     title = JStr ''t'', message_ko = JStr [], message_ja = JStr [], message_en = JStr [],
     image_url = JNull, logo_image_url = JStr ''l'', time_created = JInt 0, count = JInt 0,
     is_read = JBool False, community = (), author = (None :: unit option) \<rparr> = Inr (Str ''NOT IMPLEMENTED'')"
proof -
  let ?n = "\<lparr> data = [(''messageId'', JStr ''LIVE-7'')], notification_id = JInt 1,
     title = JStr ''t'', message_ko = JStr [], message_ja = JStr [], message_en = JStr [],
     image_url = JNull, logo_image_url = JStr ''l'', time_created = JInt 0, count = JInt 0,
     is_read = JBool False, community = (), author = (None :: unit option) \<rparr>"
  have m: "map_of (data ?n) ''messageId'' = Some (JStr ''LIVE-7'')" by simp
  have a: "\<forall>k \<in> set (map fst post_types). \<not> is_substring k ''LIVE-7''"
    by (simp add: post_types_def)
  have "post_type ?n = Inr (Str ''NOT IMPLEMENTED'')"
    using post_type_unclassified [OF m] a by blast
  then show ?thesis using a unfolding list_all_iff by (intro conjI)
qed

section \<open>Construction\<close>

lemma init_author_cases:
  "map_of d ''authors'' = None \<Longrightarrow> init_author mk_member d = Inr None"
  "map_of d ''authors'' = Some JNull \<Longrightarrow> init_author mk_member d = Inr None"
  "map_of d ''authors'' = Some (JList []) \<Longrightarrow> init_author mk_member d = Inr None"
  "map_of d ''authors'' = Some (JList (a # as)) \<Longrightarrow> mk_member a = Inr m
    \<Longrightarrow> init_author mk_member d = Inr (Some m)"
  by (simp_all add: init_author_def get_default_def getitem_def bind_def)

lemma valid_authors_init:
  assumes "valid_authors mk_member d"
  obtains v_author where "init_author mk_member d = Inr v_author"
    and "v_author \<noteq> None \<longleftrightarrow> (\<exists>a as. map_of d ''authors'' = Some (JList (a # as)))"
    and "\<forall>a as. map_of d ''authors'' = Some (JList (a # as)) \<longrightarrow> mk_member a = Inr (the v_author)"
proof (cases "map_of d ''authors''")
  case None
  then show ?thesis using that [of None] init_author_cases(1) [of d mk_member] by simp
next
  case (Some v)
  show ?thesis
  proof (cases v)
    case JNull
    then show ?thesis using Some that [of None] init_author_cases(2) [of d mk_member] by simp
  next
    case (JList xs)
    show ?thesis
    proof (cases xs)
      case Nil
      then show ?thesis
        using Some JList that [of None] init_author_cases(3) [of d mk_member] by simp
    next
      case (Cons a as)
      then have au: "map_of d ''authors'' = Some (JList (a # as))" using Some JList by simp
      then obtain m where m: "mk_member a = Inr m"
        using assms by (auto simp: valid_authors_def split: sum.splits)
      have "init_author mk_member d = Inr (Some m)"
        using au m by (simp add: init_author_def get_default_def getitem_def bind_def)
      then show ?thesis using that [of "Some m"] au m by simp
    qed
  qed (use assms Some in \<open>simp_all add: valid_authors_def\<close>)
qed

lemma valid_message_locale:
  assumes "valid_message d"
  obtains m vs where "map_of d ''message'' = Some (JObj m)"
    and "map_of m ''values'' = Some (JObj vs)"
    and "\<forall>loc. locale_message d loc = Inr (get_default vs loc (JStr []))"
proof -
  obtain m where m: "map_of d ''message'' = Some (JObj m)"
    using assms by (auto simp: valid_message_def split: option.splits json.splits)
  obtain vs where vs: "map_of m ''values'' = Some (JObj vs)"
    using assms m by (auto simp: valid_message_def split: option.splits json.splits)
  have "locale_message d loc = Inr (get_default vs loc (JStr []))" for loc
    using m vs by (simp add: locale_message_def getitem_def bind_def)
  then show ?thesis using that m vs by blast
qed

lemma valid_payload_init:
  assumes "valid_payload mk_community mk_member d"
  obtains n m vs where "init mk_community mk_member d = Inr n"
    and "data n = d"
    and "map_of d ''activityId'' = Some (notification_id n)"
    and "map_of d ''message'' = Some (JObj m)"
    and "map_of m ''values'' = Some (JObj vs)"
    and "message_ko n = get_default vs ''ko'' (JStr [])"
    and "message_ja n = get_default vs ''ja'' (JStr [])"
    and "message_en n = get_default vs ''en'' (JStr [])"
    and "init_author mk_member d = Inr (author n)"
proof -
  have sc: "valid_scalars d" and me: "valid_message d"
    and co: "valid_community mk_community d" and au: "valid_authors mk_member d"
    using assms by (simp_all add: valid_payload_def)
  from sc obtain v_id v_title v_logo v_time v_count v_read where
    k: "getitem d ''activityId'' = Inr v_id" "getitem d ''title'' = Inr v_title"
      "getitem d ''logoImageUrl'' = Inr v_logo" "getitem d ''time'' = Inr v_time"
      "getitem d ''count'' = Inr v_count" "getitem d ''read'' = Inr v_read"
    by (auto simp: valid_scalars_def getitem_def)
  from me obtain m vs where m: "map_of d ''message'' = Some (JObj m)"
    and vs: "map_of m ''values'' = Some (JObj vs)"
    and loc': "\<forall>loc. locale_message d loc = Inr (get_default vs loc (JStr []))"
    by (rule valid_message_locale)
  have loc: "locale_message d loc = Inr (get_default vs loc (JStr []))" for loc
    using loc' by simp
  from co obtain c v_community where c: "getitem d ''community'' = Inr c"
    and mk: "mk_community c = Inr v_community"
    by (auto simp: valid_community_def getitem_def split: option.splits sum.splits)
  from au obtain v_author where a: "init_author mk_member d = Inr v_author"
    by (rule valid_authors_init)
  let ?n = "\<lparr> data = d, notification_id = v_id, title = v_title,
      message_ko = get_default vs ''ko'' (JStr []), message_ja = get_default vs ''ja'' (JStr []),
      message_en = get_default vs ''en'' (JStr []),
      image_url = get_default d ''imageUrl'' JNull, logo_image_url = v_logo,
      time_created = v_time, count = v_count, is_read = v_read, community = v_community,
      author = v_author \<rparr>"
  have i: "init mk_community mk_member d = Inr ?n"
    by (simp add: init_def bind_def k loc c mk a)
  have id: "map_of d ''activityId'' = Some (notification_id ?n)"
    using k(1) by (simp add: getitem_def split: option.splits)
  show ?thesis
    using that [OF i _ id m vs] a by simp
qed

text \<open>
  C8: for a valid payload construction gives a notification whose \<^verbatim>\<open>author\<close> is
  present exactly when \<^verbatim>\<open>authors\<close> is a list with a first element, and the author is
  then what the member constructor makes of that element; with \<^verbatim>\<open>authors\<close> missing
  or empty the author is absent.
\<close>

theorem init_author_present:
  assumes "valid_payload mk_community mk_member d"
  shows "\<exists>n. init mk_community mk_member d = Inr n
    \<and> (author n \<noteq> None \<longleftrightarrow> (\<exists>a as. map_of d ''authors'' = Some (JList (a # as))))
    \<and> (\<forall>a as. map_of d ''authors'' = Some (JList (a # as))
          \<longrightarrow> (\<exists>m. mk_member a = Inr m \<and> author n = Some m))
    \<and> (map_of d ''authors'' = None \<or> map_of d ''authors'' = Some (JList [])
          \<longrightarrow> author n = None)"
proof -
  from assms obtain n where n: "init mk_community mk_member d = Inr n"
    and a: "init_author mk_member d = Inr (author n)"
    by (rule valid_payload_init)
  have "valid_authors mk_member d" using assms by (simp add: valid_payload_def)
  then obtain v where v: "init_author mk_member d = Inr v"
    and iff: "v \<noteq> None \<longleftrightarrow> (\<exists>a as. map_of d ''authors'' = Some (JList (a # as)))"
    and mk': "\<forall>a as. map_of d ''authors'' = Some (JList (a # as)) \<longrightarrow> mk_member a = Inr (the v)"
    by (rule valid_authors_init)
  have mk: "mk_member a = Inr (the v)" if "map_of d ''authors'' = Some (JList (a # as))" for a as
    using mk' that by blast
  have va: "v = author n" using a v by simp
  have 1: "author n \<noteq> None \<longleftrightarrow> (\<exists>a as. map_of d ''authors'' = Some (JList (a # as)))"
    using iff va by simp
  have 2: "\<exists>m. mk_member a = Inr m \<and> author n = Some m"
    if "map_of d ''authors'' = Some (JList (a # as))" for a as
  proof -
    have "author n \<noteq> None" using 1 that by blast
    then obtain m where "author n = Some m" by (cases "author n") auto
    then show ?thesis using mk [OF that] va by simp
  qed
  have 3: "author n = None"
    if "map_of d ''authors'' = None \<or> map_of d ''authors'' = Some (JList [])"
    using 1 that by auto
  show ?thesis using n 1 2 3 by blast
qed

theorem init_author_present_witness:
  "valid_payload (\<lambda>c. Inr c) (\<lambda>m. Inr m) [(''activityId'', JInt 42), (''title'', JStr ''t''),
      (''message'', JObj [(''values'', JObj [])]), (''logoImageUrl'', JStr ''l''),
      (''time'', JInt 0), (''count'', JInt 3), (''read'', JBool False),
      (''community'', JObj []), (''authors'', JList [JStr ''m1'', JStr ''m2''])]
   \<and> (\<exists>n. init (\<lambda>c. Inr c) (\<lambda>m. Inr m) [(''activityId'', JInt 42), (''title'', JStr ''t''),
      (''message'', JObj [(''values'', JObj [])]), (''logoImageUrl'', JStr ''l''),
      (''time'', JInt 0), (''count'', JInt 3), (''read'', JBool False),
      (''community'', JObj []), (''authors'', JList [JStr ''m1'', JStr ''m2''])] = Inr n \<and> author n = Some (JStr ''m1''))
   \<and> valid_payload (\<lambda>c. Inr c) (\<lambda>m. Inr m) [(''activityId'', JInt 42), (''title'', JStr ''t''),
      (''message'', JObj [(''values'', JObj [])]), (''logoImageUrl'', JStr ''l''),
      (''time'', JInt 0), (''count'', JInt 3), (''read'', JBool False),
      (''community'', JObj []), (''authors'', JList [])]
   \<and> (\<exists>n. init (\<lambda>c. Inr c) (\<lambda>m :: json. Inr m) [(''activityId'', JInt 42), (''title'', JStr ''t''),
      (''message'', JObj [(''values'', JObj [])]), (''logoImageUrl'', JStr ''l''),
      (''time'', JInt 0), (''count'', JInt 3), (''read'', JBool False),
      (''community'', JObj []), (''authors'', JList [])] = Inr n \<and> author n = None)"
proof -
  let ?c = "\<lambda>c :: json. (Inr c :: error + json)"
  let ?a = "[(''activityId'', JInt 42), (''title'', JStr ''t''),
      (''message'', JObj [(''values'', JObj [])]), (''logoImageUrl'', JStr ''l''),
      (''time'', JInt 0), (''count'', JInt 3), (''read'', JBool False),
      (''community'', JObj []), (''authors'', JList [JStr ''m1'', JStr ''m2''])]"
  let ?e = "[(''activityId'', JInt 42), (''title'', JStr ''t''),
      (''message'', JObj [(''values'', JObj [])]), (''logoImageUrl'', JStr ''l''),
      (''time'', JInt 0), (''count'', JInt 3), (''read'', JBool False),
      (''community'', JObj []), (''authors'', JList [])]"
  have va: "valid_payload ?c ?c ?a"
    by (simp add: valid_payload_def valid_scalars_def valid_message_def valid_community_def
        valid_authors_def)
  have ve: "valid_payload ?c ?c ?e"
    by (simp add: valid_payload_def valid_scalars_def valid_message_def valid_community_def
        valid_authors_def)
  have ma: "map_of ?a ''authors'' = Some (JList [JStr ''m1'', JStr ''m2''])" by simp
  have me: "map_of ?e ''authors'' = Some (JList [])" by simp
  have 1: "\<exists>n. init ?c ?c ?a = Inr n \<and> author n = Some (JStr ''m1'')"
    using init_author_present [OF va] ma by fastforce
  have 2: "\<exists>n. init ?c ?c ?e = Inr n \<and> author n = None"
    using init_author_present [OF ve] me by fastforce
  show ?thesis using va ve 1 2 by blast
qed

text \<open>
  C9: for a valid payload construction raises nothing, whichever of the keys
  \<^verbatim>\<open>ko\<close>, \<^verbatim>\<open>ja\<close> and \<^verbatim>\<open>en\<close> are missing under \<^verbatim>\<open>message.values\<close>, and the message
  field of each missing key is the empty string.
\<close>

theorem init_missing_locale:
  assumes "valid_payload mk_community mk_member d"
  shows "\<exists>n m vs. init mk_community mk_member d = Inr n
    \<and> map_of d ''message'' = Some (JObj m) \<and> map_of m ''values'' = Some (JObj vs)
    \<and> (map_of vs ''ko'' = None \<longrightarrow> message_ko n = JStr [])
    \<and> (map_of vs ''ja'' = None \<longrightarrow> message_ja n = JStr [])
    \<and> (map_of vs ''en'' = None \<longrightarrow> message_en n = JStr [])"
proof -
  from assms obtain n m vs where n: "init mk_community mk_member d = Inr n"
    and m: "map_of d ''message'' = Some (JObj m)"
    and vs: "map_of m ''values'' = Some (JObj vs)"
    and ko: "message_ko n = get_default vs ''ko'' (JStr [])"
    and ja: "message_ja n = get_default vs ''ja'' (JStr [])"
    and en: "message_en n = get_default vs ''en'' (JStr [])"
    by (rule valid_payload_init)
  have 1: "map_of vs ''ko'' = None \<longrightarrow> message_ko n = JStr []"
    using ko by (simp add: get_default_def)
  have 2: "map_of vs ''ja'' = None \<longrightarrow> message_ja n = JStr []"
    using ja by (simp add: get_default_def)
  have 3: "map_of vs ''en'' = None \<longrightarrow> message_en n = JStr []"
    using en by (simp add: get_default_def)
  have "init mk_community mk_member d = Inr n
    \<and> map_of d ''message'' = Some (JObj m) \<and> map_of m ''values'' = Some (JObj vs)
    \<and> (map_of vs ''ko'' = None \<longrightarrow> message_ko n = JStr [])
    \<and> (map_of vs ''ja'' = None \<longrightarrow> message_ja n = JStr [])
    \<and> (map_of vs ''en'' = None \<longrightarrow> message_en n = JStr [])"
    using n m vs 1 2 3 by (intro conjI)
  then show ?thesis by (intro exI)
qed

theorem init_missing_locale_witness:
  "valid_payload (\<lambda>c. Inr c) (\<lambda>m. Inr m) [(''activityId'', JInt 42), (''title'', JStr ''t''),
      (''message'', JObj [(''values'', JObj [(''en'', JStr ''hi'')])]), (''logoImageUrl'', JStr ''l''),
      (''time'', JInt 0), (''count'', JInt 3), (''read'', JBool False),
      (''community'', JObj [])]
   \<and> (\<exists>n. init (\<lambda>c. Inr c) (\<lambda>m :: json. Inr m) [(''activityId'', JInt 42), (''title'', JStr ''t''),
      (''message'', JObj [(''values'', JObj [(''en'', JStr ''hi'')])]), (''logoImageUrl'', JStr ''l''),
      (''time'', JInt 0), (''count'', JInt 3), (''read'', JBool False),
      (''community'', JObj [])] = Inr n
        \<and> message_ko n = JStr [] \<and> message_ja n = JStr [])"
proof -
  let ?c = "\<lambda>c :: json. (Inr c :: error + json)"
  let ?d = "[(''activityId'', JInt 42), (''title'', JStr ''t''),
      (''message'', JObj [(''values'', JObj [(''en'', JStr ''hi'')])]), (''logoImageUrl'', JStr ''l''),
      (''time'', JInt 0), (''count'', JInt 3), (''read'', JBool False),
      (''community'', JObj [])]"
  have v: "valid_payload ?c ?c ?d"
    by (simp add: valid_payload_def valid_scalars_def valid_message_def valid_community_def
        valid_authors_def)
  have "\<exists>n. init ?c ?c ?d = Inr n \<and> message_ko n = JStr [] \<and> message_ja n = JStr []"
    using init_missing_locale [OF v] by fastforce
  then show ?thesis using v by blast
qed

section \<open>Equality and hashing\<close>

lemma py_eq_refl: "py_eq a a"
  by (simp add: py_eq_def)

lemma py_eq_sym: "py_eq a b = py_eq b a"
  by (auto simp: py_eq_def)

lemma py_eq_trans: "py_eq a b \<Longrightarrow> py_eq b c \<Longrightarrow> py_eq a c"
  by (simp add: py_eq_def)

lemma py_eq_int: "py_eq (JInt i) (JInt j) = (i = j)"
  by (simp add: py_eq_def)

lemma py_eq_hash: "py_eq a b \<Longrightarrow> py_hash h a = py_hash h b"
  by (cases a; cases b) (auto simp: py_eq_def split: if_splits)

text \<open>
  C6: the comparison of a notification with a notification returns whether their
  \<^verbatim>\<open>id\<close> values are equal, so it is true exactly when they match (for integer
  \<^verbatim>\<open>id\<close>s, when they are the same integer); the comparison with anything else
  raises \<^verbatim>\<open>NotImplementedError\<close> and returns nothing.
\<close>

theorem eq_by_id:
  "eq a (IsNotification b) = Inr (py_eq (notification_id a) (notification_id b))
   \<and> (eq a (IsNotification b) = Inr True \<longleftrightarrow> py_eq (notification_id a) (notification_id b))
   \<and> (notification_id a = JInt i \<and> notification_id b = JInt j
        \<longrightarrow> eq a (IsNotification b) = Inr (i = j))
   \<and> eq a (NotNotification x) = Inl NotImplementedError"
  by (simp add: py_eq_int)

theorem eq_by_id_witness:
  "eq \<lparr> data = [], notification_id = JInt 1,
     title = JStr ''t'', message_ko = JStr [], message_ja = JStr [], message_en = JStr [],
     image_url = JNull, logo_image_url = JStr ''l'', time_created = JInt 0, count = JInt 0,
     is_read = JBool False, community = (), author = (None :: unit option) \<rparr> (IsNotification \<lparr> data = [(''k'', JNull)], notification_id = JInt 1,
     title = JStr ''t'', message_ko = JStr [], message_ja = JStr [], message_en = JStr [],
     image_url = JNull, logo_image_url = JStr ''l'', time_created = JInt 0, count = JInt 0,
     is_read = JBool False, community = (), author = (None :: unit option) \<rparr> :: (unit, unit, json) operand) = Inr True
   \<and> eq \<lparr> data = [], notification_id = JInt 1,
     title = JStr ''t'', message_ko = JStr [], message_ja = JStr [], message_en = JStr [],
     image_url = JNull, logo_image_url = JStr ''l'', time_created = JInt 0, count = JInt 0,
     is_read = JBool False, community = (), author = (None :: unit option) \<rparr> (IsNotification \<lparr> data = [], notification_id = JInt 2,
     title = JStr ''t'', message_ko = JStr [], message_ja = JStr [], message_en = JStr [],
     image_url = JNull, logo_image_url = JStr ''l'', time_created = JInt 0, count = JInt 0,
     is_read = JBool False, community = (), author = (None :: unit option) \<rparr> :: (unit, unit, json) operand) = Inr False
   \<and> eq \<lparr> data = [], notification_id = JInt 1,
     title = JStr ''t'', message_ko = JStr [], message_ja = JStr [], message_en = JStr [],
     image_url = JNull, logo_image_url = JStr ''l'', time_created = JInt 0, count = JInt 0,
     is_read = JBool False, community = (), author = (None :: unit option) \<rparr> (NotNotification (JInt 1) :: (unit, unit, json) operand) = Inl NotImplementedError"
proof -
  let ?a = "\<lparr> data = [], notification_id = JInt 1,
     title = JStr ''t'', message_ko = JStr [], message_ja = JStr [], message_en = JStr [],
     image_url = JNull, logo_image_url = JStr ''l'', time_created = JInt 0, count = JInt 0,
     is_read = JBool False, community = (), author = (None :: unit option) \<rparr>"
  let ?b = "\<lparr> data = [(''k'', JNull)], notification_id = JInt 1,
     title = JStr ''t'', message_ko = JStr [], message_ja = JStr [], message_en = JStr [],
     image_url = JNull, logo_image_url = JStr ''l'', time_created = JInt 0, count = JInt 0,
     is_read = JBool False, community = (), author = (None :: unit option) \<rparr>"
  let ?c = "\<lparr> data = [], notification_id = JInt 2,
     title = JStr ''t'', message_ko = JStr [], message_ja = JStr [], message_en = JStr [],
     image_url = JNull, logo_image_url = JStr ''l'', time_created = JInt 0, count = JInt 0,
     is_read = JBool False, community = (), author = (None :: unit option) \<rparr>"
  have 1: "eq ?a (IsNotification ?b :: (unit, unit, json) operand) = Inr True"
    using eq_by_id [of ?a ?b 1 1] by simp
  have 2: "eq ?a (IsNotification ?c :: (unit, unit, json) operand) = Inr False"
    using eq_by_id [of ?a ?c 1 2] by simp
  have 3: "eq ?a (NotNotification (JInt 1) :: (unit, unit, json) operand) = Inl NotImplementedError"
    using eq_by_id [of ?a ?b 1 1 "JInt 1"] by simp
  show ?thesis using 1 2 3 by (intro conjI)
qed

text \<open>
  C7: for a valid payload the \<^verbatim>\<open>id\<close> of the notification constructed is the value
  of \<^verbatim>\<open>activityId\<close>. The hash is the hash of \<^verbatim>\<open>id\<close>: two notifications with equal
  \<^verbatim>\<open>id\<close> have the same hash (a notification is a value, so its hash never changes).
  Equality between notifications is reflexive, symmetric and transitive.
\<close>

theorem init_id_eq_hash:
  assumes "valid_payload mk_community mk_member d"
  shows "(\<exists>n. init mk_community mk_member d = Inr n
        \<and> map_of d ''activityId'' = Some (notification_id n))
    \<and> hash h a = py_hash h (notification_id a)
    \<and> (py_eq (notification_id a) (notification_id b) \<longrightarrow> hash h a = hash h b)
    \<and> eq a (IsNotification a) = Inr True
    \<and> eq a (IsNotification b) = eq b (IsNotification a)
    \<and> (eq a (IsNotification b) = Inr True \<and> eq b (IsNotification c) = Inr True
        \<longrightarrow> eq a (IsNotification c) = Inr True)"
proof -
  from assms obtain n where "init mk_community mk_member d = Inr n"
    and "map_of d ''activityId'' = Some (notification_id n)"
    by (rule valid_payload_init)
  then have 1: "\<exists>n. init mk_community mk_member d = Inr n
      \<and> map_of d ''activityId'' = Some (notification_id n)"
    by blast
  have 2: "hash h a = py_hash h (notification_id a)"
    by (simp add: hash_def)
  have 3: "py_eq (notification_id a) (notification_id b) \<longrightarrow> hash h a = hash h b"
    by (simp add: hash_def py_eq_hash)
  have 4: "eq a (IsNotification a) = Inr True"
    by (simp add: py_eq_refl)
  have 5: "eq a (IsNotification b) = eq b (IsNotification a)"
    by (simp add: py_eq_sym)
  have 6: "eq a (IsNotification b) = Inr True \<and> eq b (IsNotification c) = Inr True
      \<longrightarrow> eq a (IsNotification c) = Inr True"
    using py_eq_trans [of "notification_id a" "notification_id b" "notification_id c"] by simp
  show ?thesis using 1 2 3 4 5 6 by (intro conjI)
qed

theorem init_id_eq_hash_witness:
  "valid_payload (\<lambda>c. Inr c) (\<lambda>m. Inr m) [(''activityId'', JInt 42), (''title'', JStr ''t''),
      (''message'', JObj [(''values'', JObj [])]), (''logoImageUrl'', JStr ''l''),
      (''time'', JInt 0), (''count'', JInt 3), (''read'', JBool False),
      (''community'', JObj [])]
   \<and> (\<exists>n. init (\<lambda>c. Inr c) (\<lambda>m :: json. Inr m) [(''activityId'', JInt 42), (''title'', JStr ''t''),
      (''message'', JObj [(''values'', JObj [])]), (''logoImageUrl'', JStr ''l''),
      (''time'', JInt 0), (''count'', JInt 3), (''read'', JBool False),
      (''community'', JObj [])] = Inr n \<and> notification_id n = JInt 42)
   \<and> py_eq (JInt 1) (JBool True)
   \<and> hash \<lparr> hash_int = (\<lambda>i. i mod 7), hash_str = (\<lambda>s. int (length s)), hash_none = 0 \<rparr> \<lparr> data = [], notification_id = JInt 1,
     title = JStr ''t'', message_ko = JStr [], message_ja = JStr [], message_en = JStr [],
     image_url = JNull, logo_image_url = JStr ''l'', time_created = JInt 0, count = JInt 0,
     is_read = JBool False, community = (), author = (None :: unit option) \<rparr> = hash \<lparr> hash_int = (\<lambda>i. i mod 7), hash_str = (\<lambda>s. int (length s)), hash_none = 0 \<rparr> \<lparr> data = [], notification_id = JBool True,
     title = JStr ''t'', message_ko = JStr [], message_ja = JStr [], message_en = JStr [],
     image_url = JNull, logo_image_url = JStr ''l'', time_created = JInt 0, count = JInt 0,
     is_read = JBool False, community = (), author = (None :: unit option) \<rparr>"
proof -
  let ?c = "\<lambda>c :: json. (Inr c :: error + json)"
  let ?d = "[(''activityId'', JInt 42), (''title'', JStr ''t''),
      (''message'', JObj [(''values'', JObj [])]), (''logoImageUrl'', JStr ''l''),
      (''time'', JInt 0), (''count'', JInt 3), (''read'', JBool False),
      (''community'', JObj [])]"
  let ?a = "\<lparr> data = [], notification_id = JInt 1,
     title = JStr ''t'', message_ko = JStr [], message_ja = JStr [], message_en = JStr [],
     image_url = JNull, logo_image_url = JStr ''l'', time_created = JInt 0, count = JInt 0,
     is_read = JBool False, community = (), author = (None :: unit option) \<rparr>"
  let ?b = "\<lparr> data = [], notification_id = JBool True,
     title = JStr ''t'', message_ko = JStr [], message_ja = JStr [], message_en = JStr [],
     image_url = JNull, logo_image_url = JStr ''l'', time_created = JInt 0, count = JInt 0,
     is_read = JBool False, community = (), author = (None :: unit option) \<rparr>"
  let ?h = "\<lparr> hash_int = (\<lambda>i. i mod 7), hash_str = (\<lambda>s. int (length s)), hash_none = 0 \<rparr>"
  have v: "valid_payload ?c ?c ?d"
    by (simp add: valid_payload_def valid_scalars_def valid_message_def valid_community_def
        valid_authors_def)
  have e: "py_eq (JInt 1) (JBool True)" by (simp add: py_eq_def)
  note t = init_id_eq_hash [OF v, where a = ?a and b = ?b and h = ?h]
  have 1: "\<exists>n. init ?c ?c ?d = Inr n \<and> notification_id n = JInt 42"
    using t by fastforce
  have e': "py_eq (notification_id ?a) (notification_id ?b)"
    using e by simp
  have 2: "hash ?h ?a = hash ?h ?b"
    using t e' by blast
  show ?thesis using v 1 e 2 by (intro conjI)
qed

section \<open>Keys that only the properties read\<close>




end
